theory Spec2Isabelle
  imports
    Main
    "HOL-Library.Word"
    "HOL-Library.Sublist"
    "HOL-Library.List_Lexorder"
    "HOL-Library.Product_Lexorder"
    "HOL-Library.Multiset"
begin

section \<open>The call-in / call-out audit command (\<open>callincallout.ts\<close>)\<close>

text \<open>
  The development embeds \<open>CallInCallOut.run\<close> of
  \<open>src/commands/hardis/project/audit/callincallout.ts\<close>: the loop over the Apex files,
  the derivation of the report rows, the sort, the console table and the hand-over to the
  report writer.
\<close>

subsection \<open>Strings\<close>

text \<open>
  A JavaScript string is a sequence of UTF-16 code units. \<open>js\<close> turns an ASCII literal of
  the source into such a sequence. Comparison with \<open><\<close> is the lexicographic order on
  code units (\<open>List_Lexorder\<close>), which is how JavaScript compares two strings.
\<close>

type_synonym jschar = "16 word"
type_synonym jsstring = "jschar list"

definition js :: "string \<Rightarrow> jsstring" where
  "js s = map of_char s"

text \<open>\<open>String.prototype.startsWith\<close>.\<close>

definition startsWith :: "jsstring \<Rightarrow> jsstring \<Rightarrow> bool" where
  "startsWith s p = prefix p s"

text \<open>
  \<open>String.prototype.indexOf\<close>: the least position at which \<open>sub\<close> occurs in \<open>s\<close>;
  \<open>None\<close> stands for \<open>-1\<close>.
\<close>

fun indexOf :: "jsstring \<Rightarrow> jsstring \<Rightarrow> nat option" where
  "indexOf [] sub = (if sub = [] then Some 0 else None)"
| "indexOf (c # t) sub =
     (if prefix sub (c # t) then Some 0 else map_option Suc (indexOf t sub))"

text \<open>\<open>String.prototype.includes\<close>.\<close>

definition includes_str :: "jsstring \<Rightarrow> jsstring \<Rightarrow> bool" where
  "includes_str s sub = (indexOf s sub \<noteq> None)"

text \<open>
  \<open>String.prototype.split\<close> with a string separator and no limit: with the empty separator
  the string falls apart into its code units; otherwise the pieces between the successive
  occurrences of the separator, searched from the left, each search starting behind the
  previous occurrence.
\<close>

function split :: "jsstring \<Rightarrow> jsstring \<Rightarrow> jsstring list" where
  "split s sep =
     (if sep = [] then map (\<lambda>c. [c]) s
      else case indexOf s sep of
             None \<Rightarrow> [s]
           | Some j \<Rightarrow> take j s # split (drop (j + length sep) s) sep)"
  by pat_completeness auto
termination
proof (relation "measure (\<lambda>(s, sep). length s)")
  show "wf (measure (\<lambda>(s, sep). length s))" by simp
next
  fix s sep :: jsstring and j :: nat
  assume sep: "sep \<noteq> []" and idx: "indexOf s sep = Some j"
  have "s \<noteq> []" using sep idx by (cases s) auto
  moreover have "0 < length sep" using sep by simp
  ultimately show "((drop (j + length sep) s, sep), (s, sep)) \<in> measure (\<lambda>(s, sep). length s)"
    by simp
qed

declare split.simps [simp del]

text \<open>
  Reading element \<open>0\<close> of an array: \<open>None\<close> stands for \<open>undefined\<close>, which is what
  JavaScript yields on an empty array.
\<close>

definition at0 :: "'a list \<Rightarrow> 'a option" where
  "at0 xs = (case xs of [] \<Rightarrow> None | x # _ \<Rightarrow> Some x)"

text \<open>
  The \<open>nameSpace\<close> expression of the row derivation:
  \<^verbatim>\<open>item.fileName.includes('__') ? item.fileName.split('__')[0] : 'Custom'\<close>
\<close>

definition nameSpaceOf :: "jsstring \<Rightarrow> jsstring option" where
  "nameSpaceOf fileName =
     (if includes_str fileName (js ''__'') then at0 (split fileName (js ''__''))
      else Some (js ''Custom''))"

subsection \<open>Normalising a captured text and joining\<close>

definition CR :: jschar where
  "CR = 0x0D"

definition LF :: jschar where
  "LF = 0x0A"

definition SP :: jschar where
  "SP = 0x20"

text \<open>
  \<^verbatim>\<open>extractedText.replace(/(\r\n|\n|\r)/gm, '')\<close>: the global regular expression is
  tried at every position from the left, its alternatives in the order written; what it
  matches is replaced by the empty string and the search goes on behind the match.
\<close>

fun removeNewLines :: "jsstring \<Rightarrow> jsstring" where
  "removeNewLines [] = []"
| "removeNewLines [c] = (if c = LF \<or> c = CR then [] else [c])"
| "removeNewLines (c # d # s) =
     (if c = CR \<and> d = LF then removeNewLines s
      else if c = LF \<or> c = CR then removeNewLines (d # s)
      else c # removeNewLines (d # s))"

text \<open>
  The class \<open>\s\<close> of a JavaScript regular expression without the \<open>u\<close> flag: the white
  space code points (tab, vertical tab, form feed, space, no-break space, the byte order
  mark and the space separators of Unicode) and the line terminators.
\<close>

definition isWhiteSpace :: "jschar \<Rightarrow> bool" where
  "isWhiteSpace c \<longleftrightarrow>
     c \<in> {0x0009, 0x000A, 0x000B, 0x000C, 0x000D, 0x0020, 0x00A0, 0x1680,
          0x2028, 0x2029, 0x202F, 0x205F, 0x3000, 0xFEFF}
     \<or> (0x2000 \<le> c \<and> c \<le> 0x200A)"

text \<open>
  \<^verbatim>\<open>.replace(/\s+/g, ' ')\<close>: every maximal run of white space becomes one space.
\<close>

function collapseWhitespace :: "jsstring \<Rightarrow> jsstring" where
  "collapseWhitespace [] = []"
| "collapseWhitespace (c # s) =
     (if isWhiteSpace c then SP # collapseWhitespace (dropWhile isWhiteSpace s)
      else c # collapseWhitespace s)"
  by pat_completeness auto
termination
proof (relation "measure length")
  show "wf (measure length)" by simp
next
  fix c :: jschar and s :: jsstring
  have "length (dropWhile isWhiteSpace s) \<le> length s" by (rule length_dropWhile_le)
  then show "(dropWhile isWhiteSpace s, c # s) \<in> measure length" by simp
next
  fix c :: jschar and s :: jsstring
  show "(s, c # s) \<in> measure length" by simp
qed

text \<open>
  \<open>Array.prototype.join\<close> on an array of strings: the elements in order, the separator
  between each two neighbours, the empty string for the empty array.
\<close>

fun join :: "jsstring list \<Rightarrow> jsstring \<Rightarrow> jsstring" where
  "join [] sep = []"
| "join [x] sep = x"
| "join (x # y # ys) sep = x @ sep @ join (y # ys) sep"

text \<open>\<^verbatim>\<open>s || ''\<close> on a string \<open>s\<close>: the empty string is the only falsy string.\<close>

definition orEmpty :: "jsstring \<Rightarrow> jsstring" where
  "orEmpty s = (if s = [] then js [] else s)"

subsection \<open>Data model\<close>

text \<open>
  A regular expression literal is kept as data, by its source text and its flags. What it
  matches is decided by the regular expression engine of the language, which is outside
  the repository.
\<close>

record regex =
  source :: string
  flags :: string

record detailCrit =
  d_name :: jsstring
  d_regex :: regex

record catcher =
  c_type :: jsstring
  c_subType :: jsstring
  c_regex :: regex
  c_detail :: "detailCrit list"

text \<open>
  An element of \<open>this.matchResults\<close>, with the properties that \<open>run\<close> reads. The object
  \<open>item.detail\<close> is the list of its own properties, in the order in which
  \<open>Object.keys\<close> enumerates them.
\<close>

record matchResult =
  m_type :: jsstring
  m_subType :: jsstring
  m_fileName :: jsstring
  m_matches :: nat
  m_detail :: "(jsstring \<times> jsstring list) list"

text \<open>
  A report row. A property that can be \<open>undefined\<close> or deleted is an option:
  \<open>nameSpace\<close> is read from an array, and \<open>detail\<close> is deleted from the copies that the
  console table shows.
\<close>

record row =
  type :: jsstring
  subType :: jsstring
  fileName :: jsstring
  nameSpace :: "jsstring option"
  matches :: nat
  detail :: "jsstring option"

record column =
  key :: string
  header :: jsstring

record reportFile =
  rf_type :: jsstring
  rf_file :: jsstring

record payload =
  outputString :: jsstring
  result :: "row list"
  reportFiles :: "reportFile list"

datatype error = IOError jsstring | ExportError jsstring

text \<open>What the command does to the outside, in the order in which it does it.\<close>

datatype event =
    UxLog jsstring
  | ConsoleTable "row list"
  | GenerateReports "row list" "column list"

text \<open>
  The collaborators of \<open>run\<close> that are not part of the file: the file enumeration
  (\<open>glob\<close>, with its ignore list), \<open>fs.readFile\<close>, which fails on an unreadable file, and
  \<open>catchMatches\<close> and \<open>generateReports\<close> of \<open>common/utils\<close>.
\<close>

record env =
  glob :: "string \<Rightarrow> jsstring list"
  readFile :: "jsstring \<Rightarrow> error + jsstring"
  catchMatches :: "catcher \<Rightarrow> jsstring \<Rightarrow> jsstring \<Rightarrow> matchResult list"
  generateReports :: "row list \<Rightarrow> column list \<Rightarrow> error + reportFile list"

subsection \<open>The scan\<close>

definition pattern :: string where
  "pattern = ''**/*.{cls,trigger}''"

text \<open>The backslash of a regular expression source, which a string literal cannot hold.\<close>

definition backslash :: char where
  "backslash = CHR 0x5C"

definition catchers :: "catcher list" where
  "catchers =
     [\<lparr>c_type = js ''INBOUND'', c_subType = js ''SOAP'',
       c_regex = \<lparr>source = ''webservice static'', flags = ''gim''\<rparr>,
       c_detail = [\<lparr>d_name = js ''webServiceName'',
                    d_regex = \<lparr>source = ''webservice static (.*?){'', flags = ''gims''\<rparr>\<rparr>]\<rparr>,
      \<lparr>c_type = js ''INBOUND'', c_subType = js ''REST'',
       c_regex = \<lparr>source = ''@RestResource'', flags = ''gim''\<rparr>,
       c_detail = [\<lparr>d_name = js ''restResource'',
                    d_regex = \<lparr>source = ''@RestResource'' @ [backslash] @ ''((.*?)''
                                        @ [backslash] @ '')'',
                               flags = ''gims''\<rparr>\<rparr>]\<rparr>,
      \<lparr>c_type = js ''OUTBOUND'', c_subType = js ''HTTP'',
       c_regex = \<lparr>source = ''new HttpRequest'', flags = ''gim''\<rparr>,
       c_detail = [\<lparr>d_name = js ''endPoint'',
                    d_regex = \<lparr>source = ''setEndpoint'' @ [backslash] @ ''((.*?);'',
                               flags = ''gims''\<rparr>\<rparr>,
                   \<lparr>d_name = js ''action'',
                    d_regex = \<lparr>source = ''<soapenv:Body><[A-Za-z0-9_-]*:(.*?)>'',
                               flags = ''gims''\<rparr>\<rparr>]\<rparr>]"

text \<open>The test that makes the loop \<open>continue\<close> with the next file.\<close>

definition skipped :: "jsstring \<Rightarrow> bool" where
  "skipped fileText \<longleftrightarrow>
     startsWith fileText (js ''hidden'') \<or> includes_str fileText (js ''@isTest'')"

text \<open>
  The inner loop over the catchers; \<open>acc\<close> is \<open>this.matchResults\<close>, to which each call
  of \<open>catchMatches\<close> pushes its results.
\<close>

fun catcherLoop ::
  "env \<Rightarrow> catcher list \<Rightarrow> jsstring \<Rightarrow> jsstring \<Rightarrow> matchResult list \<Rightarrow> matchResult list" where
  "catcherLoop e [] file fileText acc = acc"
| "catcherLoop e (c # cs) file fileText acc =
     catcherLoop e cs file fileText (acc @ catchMatches e c file fileText)"

text \<open>
  The outer loop over the files. Nothing catches a failure of \<open>fs.readFile\<close>: it ends the
  loop and the command.
\<close>

fun fileLoop ::
  "env \<Rightarrow> catcher list \<Rightarrow> jsstring list \<Rightarrow> matchResult list \<Rightarrow> error + matchResult list" where
  "fileLoop e cs [] acc = Inr acc"
| "fileLoop e cs (file # files) acc =
     (case readFile e file of
        Inl err \<Rightarrow> Inl err
      | Inr fileText \<Rightarrow>
          if skipped fileText then fileLoop e cs files acc
          else fileLoop e cs files (catcherLoop e cs file fileText acc))"

subsection \<open>Row derivation\<close>

text \<open>The \<open>detail\<close> expression of the row derivation.\<close>

definition detailText :: "(jsstring \<times> jsstring list) list \<Rightarrow> jsstring" where
  "detailText d =
     orEmpty
       (join
          (map (\<lambda>(key, texts).
                  key @ js '': '' @
                  join (map (\<lambda>extractedText. collapseWhitespace (removeNewLines extractedText))
                          texts)
                       (js '' | ''))
               d)
          (js '' || ''))"

definition formatResult :: "matchResult \<Rightarrow> row" where
  "formatResult item =
     \<lparr>type = m_type item,
      subType = m_subType item,
      fileName = m_fileName item,
      nameSpace = nameSpaceOf (m_fileName item),
      matches = m_matches item,
      detail = Some (detailText (m_detail item))\<rparr>"

subsection \<open>Sorting\<close>

datatype direction = asc | desc

datatype jsval = Undefined | Str jsstring | Num nat

text \<open>Reading a property of a row by its name.\<close>

definition getProp :: "string \<Rightarrow> row \<Rightarrow> jsval" where
  "getProp k r =
     (if k = ''type'' then Str (type r)
      else if k = ''subType'' then Str (subType r)
      else if k = ''fileName'' then Str (fileName r)
      else if k = ''nameSpace'' then (case nameSpace r of None \<Rightarrow> Undefined | Some s \<Rightarrow> Str s)
      else if k = ''matches'' then Num (matches r)
      else if k = ''detail'' then (case detail r of None \<Rightarrow> Undefined | Some s \<Rightarrow> Str s)
      else Undefined)"

text \<open>
  \<open>x < y\<close> on two property values: two strings by code units, two numbers by size. The
  sort keys of a row are three strings and a number, so no other pair is compared.
\<close>

fun lessVal :: "jsval \<Rightarrow> jsval \<Rightarrow> bool" where
  "lessVal (Str a) (Str b) = (a < b)"
| "lessVal (Num a) (Num b) = (a < b)"
| "lessVal _ _ = False"

definition compareBy :: "direction \<Rightarrow> jsval \<Rightarrow> jsval \<Rightarrow> int" where
  "compareBy d x y =
     (let r = (if x = y then 0 else if lessVal x y then - 1 else if lessVal y x then 1 else 0)
      in case d of asc \<Rightarrow> r | desc \<Rightarrow> - r)"

text \<open>
  Modelled from the spec: the package \<open>sort-array\<close>, whose \<open>sortArray\<close> the command
  calls, is not among the source files. The spec's sort is multi-key with a direction per
  key: the first key on which two rows differ decides, in that key's direction, and a key
  without a direction is ascending.
\<close>

fun compareFunc :: "string list \<Rightarrow> direction list \<Rightarrow> row \<Rightarrow> row \<Rightarrow> int" where
  "compareFunc [] ds x y = 0"
| "compareFunc (k # ks) ds x y =
     (let r = compareBy (case ds of [] \<Rightarrow> asc | d # _ \<Rightarrow> d) (getProp k x) (getProp k y)
      in if r = 0 then compareFunc ks (drop 1 ds) x y else r)"

text \<open>
  Modelled from the spec: the sort is stable. A stable sort by a comparator that is a
  total preorder has one result only, whatever the algorithm; here each element, from
  the last to the first, is inserted in front of the first element that it does not
  exceed.
\<close>

fun insertBy :: "('a \<Rightarrow> 'a \<Rightarrow> int) \<Rightarrow> 'a \<Rightarrow> 'a list \<Rightarrow> 'a list" where
  "insertBy cmp x [] = [x]"
| "insertBy cmp x (y # ys) = (if cmp x y \<le> 0 then x # y # ys else y # insertBy cmp x ys)"

text \<open>
  Modelled from the spec: the stable sort of a whole array by a comparator, built from the
  insertion above.
\<close>

definition arraySort :: "('a \<Rightarrow> 'a \<Rightarrow> int) \<Rightarrow> 'a list \<Rightarrow> 'a list" where
  "arraySort cmp xs = foldr (insertBy cmp) xs []"

text \<open>
  Modelled from the spec: \<open>sortArray\<close> of the package \<open>sort-array\<close> with its options
  \<open>by\<close> and \<open>order\<close>, as the stable multi-key sort of the spec. What the package does
  to the array it is given is not modelled: the command does not use that array again.
\<close>

definition sortArray :: "row list \<Rightarrow> string list \<Rightarrow> direction list \<Rightarrow> row list" where
  "sortArray arr keys dirs = arraySort (compareFunc keys dirs) arr"

text \<open>The call of \<open>run\<close>, with its keys and directions.\<close>

definition resultSorted :: "row list \<Rightarrow> row list" where
  "resultSorted rows =
     sortArray rows [''type'', ''subType'', ''fileName'', ''matches''] [asc, asc, asc, desc]"

subsection \<open>The console table\<close>

text \<open>
  From here on the identity of the row objects matters: the store holds the objects, an
  array holds references to them. \<open>JSON.parse(JSON.stringify(a))\<close> builds a new object
  for every element of \<open>a\<close>; a row has strings, a number and no other value, and these
  come back from JSON as they went in.
\<close>

type_synonym ref = nat
type_synonym store = "row list"

definition jsonCopy :: "store \<Rightarrow> ref list \<Rightarrow> store \<times> ref list" where
  "jsonCopy h arr = (h @ map (\<lambda>a. h ! a) arr, [length h ..< length h + length arr])"

text \<open>
  \<^verbatim>\<open>resultsLight.map((item) => { delete item.detail; return item; })\<close>: the callback
  changes the object that \<open>item\<close> refers to and returns the same reference.
\<close>

fun deleteDetail :: "store \<Rightarrow> ref list \<Rightarrow> store" where
  "deleteDetail h [] = h"
| "deleteDetail h (item # items) = deleteDetail (h[item := (h ! item)\<lparr>detail := None\<rparr>]) items"

definition displayTable :: "store \<Rightarrow> ref list \<Rightarrow> store \<times> event" where
  "displayTable h refs =
     (let copied = jsonCopy h refs;
          resultsLight = snd copied;
          h' = deleteDetail (fst copied) resultsLight
      in (h', ConsoleTable (map (\<lambda>a. h' ! a) resultsLight)))"

subsection \<open>The command\<close>

definition columns :: "column list" where
  "columns =
     [\<lparr>key = ''type'', header = js ''IN/OUT''\<rparr>,
      \<lparr>key = ''subType'', header = js ''Protocol''\<rparr>,
      \<lparr>key = ''fileName'', header = js ''Apex''\<rparr>,
      \<lparr>key = ''nameSpace'', header = js ''Namespace''\<rparr>,
      \<lparr>key = ''matches'', header = js ''Number''\<rparr>,
      \<lparr>key = ''detail'', header = js ''Detail''\<rparr>]"

text \<open>A length in a template literal: its decimal digits.\<close>

function numberToString :: "nat \<Rightarrow> jsstring" where
  "numberToString n =
     (if n < 10 then [of_nat (48 + n)]
      else numberToString (n div 10) @ [of_nat (48 + n mod 10)])"
  by pat_completeness auto
termination
  by (relation "measure (\<lambda>n. n)") auto

declare numberToString.simps [simp del]

text \<open>
  The part of \<open>run\<close> behind the scan: row derivation, sort, console table, report files,
  return value. The sorted rows become objects of the store; \<open>refs\<close> is the array
  \<open>resultSorted\<close> of the source, and \<open>generateReports\<close> and the return value read
  the objects through it at the time they run.
  Nothing catches a failure of \<open>generateReports\<close>.
\<close>

definition report :: "env \<Rightarrow> matchResult list \<Rightarrow> event list \<times> (error + payload)" where
  "report e matchResults =
     (let rows = map formatResult matchResults;
          h = resultSorted rows;
          refs = [0 ..< length h];
          shown = displayTable h refs;
          h' = fst shown;
          exported = map (\<lambda>a. h' ! a) refs;
          events = [snd shown, GenerateReports exported columns]
      in case generateReports e exported columns of
           Inl err \<Rightarrow> (events, Inl err)
         | Inr files \<Rightarrow>
             (events,
              Inr \<lparr>outputString = js ''Processed callIns and callOuts audit'',
                   result = map (\<lambda>a. h' ! a) refs,
                   reportFiles = files\<rparr>))"

definition run :: "env \<Rightarrow> event list \<times> (error + payload)" where
  "run e =
     (let apexFiles = glob e pattern;
          browsing = UxLog (js ''Browsing '' @ numberToString (length apexFiles) @ js '' files'')
      in case fileLoop e catchers apexFiles [] of
           Inl err \<Rightarrow> ([browsing], Inl err)
         | Inr matchResults \<Rightarrow>
             (browsing # fst (report e matchResults), snd (report e matchResults)))"

subsection \<open>The matcher\<close>

text \<open>
  The regular expression engine of the language: how often a global regular expression
  matches in a text, from the left and without overlap, and the first capture group of
  each of these matches.
\<close>

record regexEngine =
  countMatches :: "regex \<Rightarrow> jsstring \<Rightarrow> nat"
  firstGroups :: "regex \<Rightarrow> jsstring \<Rightarrow> jsstring list"

text \<open>
  Modelled from the spec: \<open>catchMatches\<close> of \<open>common/utils\<close> is not among the source
  files. The spec's matcher counts the matches \<open>n\<close> of the primary pattern in the file
  text; for \<open>n = 0\<close> it emits nothing; otherwise it evaluates every detail extractor
  on the same full text and emits one record with \<open>matchCount = n\<close> and, per extractor in
  declaration order, the list of its captures, which may be empty.
\<close>

definition catchMatches_spec ::
  "regexEngine \<Rightarrow> catcher \<Rightarrow> jsstring \<Rightarrow> jsstring \<Rightarrow> matchResult list" where
  "catchMatches_spec re c file fileText =
     (let n = countMatches re (c_regex c) fileText
      in if n = 0 then []
         else [\<lparr>m_type = c_type c,
                m_subType = c_subType c,
                m_fileName = file,
                m_matches = n,
                m_detail = map (\<lambda>d. (d_name d, firstGroups re (d_regex d) fileText))
                               (c_detail c)\<rparr>])"

subsection \<open>Example inputs\<close>

text \<open>
  A small project: a class in a namespace that exposes a web service, a test class, a
  class without any call, and a file that cannot be read.
\<close>

definition exRead :: "jsstring \<Rightarrow> error + jsstring" where
  "exRead f =
     (if f = js ''Locked.cls'' then Inl (IOError f)
      else if f = js ''ns__Ping.cls''
        then Inr (js ''global class Ping { webservice static void ping() {} }'')
      else if f = js ''PingTest.cls''
        then Inr (js ''@isTest class PingTest { webservice static void t() {} }'')
      else Inr (js ''class Plain {}''))"

definition exCatch :: "catcher \<Rightarrow> jsstring \<Rightarrow> jsstring \<Rightarrow> matchResult list" where
  "exCatch c f t =
     (if includes_str t (js (source (c_regex c)))
      then [\<lparr>m_type = c_type c, m_subType = c_subType c, m_fileName = f, m_matches = 1,
             m_detail = [(js ''webServiceName'', [js ''void ping() ''])]\<rparr>]
      else [])"

definition exWriter :: "row list \<Rightarrow> column list \<Rightarrow> error + reportFile list" where
  "exWriter rows cols = Inr [\<lparr>rf_type = js ''csv'', rf_file = js ''report.csv''\<rparr>]"

definition exEnv :: "jsstring list \<Rightarrow> env" where
  "exEnv files =
     \<lparr>glob = (\<lambda>p. files), readFile = exRead, catchMatches = exCatch,
      generateReports = exWriter\<rparr>"

text \<open>The row that the example project yields.\<close>

definition exRow :: row where
  "exRow =
     \<lparr>type = js ''INBOUND'', subType = js ''SOAP'', fileName = js ''ns__Ping.cls'',
      nameSpace = Some (js ''ns''), matches = 1,
      detail = Some (js ''webServiceName: void ping() '')\<rparr>"

text \<open>
  A stand-in for the regular expression engine: it reads a pattern as a literal text,
  counts its occurrences from the left without overlap, and captures what follows the
  pattern \<open>@RestResource\<close> up to the end of the text.
\<close>

definition literalEngine :: regexEngine where
  "literalEngine =
     \<lparr>countMatches = (\<lambda>re text. length (split text (js (source re))) - 1),
      firstGroups = (\<lambda>re text. drop 1 (split text (js ''@RestResource'')))\<rparr>"

subsection \<open>The order of the report, in the words of the spec\<close>

text \<open>
  Rows are ordered by \<open>type\<close> ascending, then \<open>subType\<close> ascending, then \<open>fileName\<close>
  ascending, then \<open>matches\<close> descending.
\<close>

definition precedes_spec :: "row \<Rightarrow> row \<Rightarrow> bool" where
  "precedes_spec r s \<longleftrightarrow>
     type r < type s
     \<or> (type r = type s
        \<and> (subType r < subType s
           \<or> (subType r = subType s
              \<and> (fileName r < fileName s
                 \<or> (fileName r = fileName s \<and> matches s \<le> matches r)))))"

text \<open>The four sort keys of a row.\<close>

definition sortKeys :: "row \<Rightarrow> jsstring \<times> jsstring \<times> jsstring \<times> nat" where
  "sortKeys r = (type r, subType r, fileName r, matches r)"


subsection \<open>Facts about the string functions\<close>

lemma indexOf_Some_prefix:
  "indexOf s sub = Some j \<Longrightarrow> prefix sub (drop j s)"
proof (induction s arbitrary: j)
  case Nil
  then show ?case by (simp split: if_splits)
next
  case (Cons c t)
  show ?case
  proof (cases "prefix sub (c # t)")
    case True
    with Cons.prems show ?thesis by simp
  next
    case False
    with Cons.prems obtain i where "indexOf t sub = Some i" "j = Suc i"
      by auto
    with Cons.IH show ?thesis by simp
  qed
qed

lemma indexOf_Some_least:
  "indexOf s sub = Some j \<Longrightarrow> i < j \<Longrightarrow> \<not> prefix sub (drop i s)"
proof (induction s arbitrary: i j)
  case Nil
  then show ?case by (simp split: if_splits)
next
  case (Cons c t)
  show ?case
  proof (cases "prefix sub (c # t)")
    case True
    with Cons.prems show ?thesis by simp
  next
    case False
    with Cons.prems obtain k where k: "indexOf t sub = Some k" "j = Suc k"
      by auto
    show ?thesis
    proof (cases i)
      case 0
      with False show ?thesis by simp
    next
      case (Suc i')
      with Cons.prems k have "i' < k" by simp
      with Cons.IH k have "\<not> prefix sub (drop i' t)" by blast
      with Suc show ?thesis by simp
    qed
  qed
qed

lemma indexOf_Some_bound:
  "indexOf s sub = Some j \<Longrightarrow> j + length sub \<le> length s"
proof -
  assume "indexOf s sub = Some j"
  then have "prefix sub (drop j s)" by (rule indexOf_Some_prefix)
  then have "length sub \<le> length (drop j s)" by (rule prefix_length_le)
  moreover have "j \<le> length s"
  proof (rule ccontr)
    assume "\<not> j \<le> length s"
    then have "length s < j" by simp
    with \<open>indexOf s sub = Some j\<close> have "\<not> prefix sub (drop (length s) s)"
      by (rule indexOf_Some_least)
    moreover from \<open>\<not> j \<le> length s\<close> \<open>prefix sub (drop j s)\<close> have "sub = []" by simp
    ultimately show False by simp
  qed
  ultimately show ?thesis by simp
qed

lemma indexOf_None_iff:
  "indexOf s sub = None \<longleftrightarrow> (\<forall>i \<le> length s. \<not> prefix sub (drop i s))"
proof (induction s)
  case Nil
  then show ?case by simp
next
  case (Cons c t)
  show ?case
  proof (cases "prefix sub (c # t)")
    case True
    then have "prefix sub (drop 0 (c # t))" by simp
    with True show ?thesis by fastforce
  next
    case False
    have "(\<forall>i \<le> length (c # t). \<not> prefix sub (drop i (c # t)))
          \<longleftrightarrow> (\<forall>i \<le> length t. \<not> prefix sub (drop i t))"
    proof
      assume h: "\<forall>i \<le> length (c # t). \<not> prefix sub (drop i (c # t))"
      show "\<forall>i \<le> length t. \<not> prefix sub (drop i t)"
      proof (intro allI impI)
        fix i assume "i \<le> length t"
        then have "Suc i \<le> length (c # t)" by simp
        with h have "\<not> prefix sub (drop (Suc i) (c # t))" by blast
        then show "\<not> prefix sub (drop i t)" by simp
      qed
    next
      assume h: "\<forall>i \<le> length t. \<not> prefix sub (drop i t)"
      show "\<forall>i \<le> length (c # t). \<not> prefix sub (drop i (c # t))"
      proof (intro allI impI)
        fix i assume i: "i \<le> length (c # t)"
        show "\<not> prefix sub (drop i (c # t))"
        proof (cases i)
          case 0
          with False show ?thesis by simp
        next
          case (Suc i')
          with i h show ?thesis by simp
        qed
      qed
    qed
    with False Cons.IH show ?thesis by simp
  qed
qed

lemma split_nonempty_sep:
  "sep \<noteq> [] \<Longrightarrow>
   split s sep = (case indexOf s sep of
                    None \<Rightarrow> [s]
                  | Some j \<Rightarrow> take j s # split (drop (j + length sep) s) sep)"
  by (subst split.simps) simp

lemma split_None: "sep \<noteq> [] \<Longrightarrow> indexOf s sep = None \<Longrightarrow> split s sep = [s]"
  by (simp add: split_nonempty_sep)

lemma split_Some:
  "sep \<noteq> [] \<Longrightarrow> indexOf s sep = Some j \<Longrightarrow>
   split s sep = take j s # split (drop (j + length sep) s) sep"
  by (simp add: split_nonempty_sep)

lemma js_underscores: "js ''__'' \<noteq> []"
  by (simp add: js_def)

subsection \<open>Facts about the normalisation\<close>

lemma removeNewLines_filter:
  "removeNewLines s = filter (\<lambda>c. c \<noteq> CR \<and> c \<noteq> LF) s"
  by (induction s rule: removeNewLines.induct) (auto simp: CR_def LF_def)

lemma isWhiteSpace_SP: "isWhiteSpace SP"
  by (simp add: isWhiteSpace_def SP_def)

lemma collapseWhitespace_spaces:
  "c \<in> set (collapseWhitespace s) \<Longrightarrow> isWhiteSpace c \<Longrightarrow> c = SP"
proof (induction s rule: collapseWhitespace.induct)
  case 1
  then show ?case by simp
next
  case (2 d s)
  then show ?case by (auto split: if_splits)
qed

lemma collapseWhitespace_no_run:
  "successively (\<lambda>a b. \<not> (isWhiteSpace a \<and> isWhiteSpace b)) (collapseWhitespace s)"
proof (induction s rule: collapseWhitespace.induct)
  case 1
  then show ?case by simp
next
  case (2 c s)
  show ?case
  proof (cases "isWhiteSpace c")
    case True
    let ?rest = "dropWhile isWhiteSpace s"
    have ih: "successively (\<lambda>a b. \<not> (isWhiteSpace a \<and> isWhiteSpace b)) (collapseWhitespace ?rest)"
      using 2(1) True by simp
    have "collapseWhitespace ?rest = [] \<or> \<not> isWhiteSpace (hd (collapseWhitespace ?rest))"
    proof (cases ?rest)
      case Nil
      then have "collapseWhitespace ?rest = []" by (simp only: collapseWhitespace.simps)
      then show ?thesis by blast
    next
      case (Cons d t)
      then have "\<not> isWhiteSpace d" using hd_dropWhile [of isWhiteSpace s] by auto
      with Cons show ?thesis by simp
    qed
    with ih True show ?thesis by (auto simp: successively_Cons)
  next
    case False
    with 2(2) show ?thesis by (auto simp: successively_Cons)
  qed
qed

lemma collapseWhitespace_keeps_text:
  "filter (\<lambda>c. \<not> isWhiteSpace c) (collapseWhitespace s) = filter (\<lambda>c. \<not> isWhiteSpace c) s"
proof (induction s rule: collapseWhitespace.induct)
  case 1
  then show ?case by simp
next
  case (2 c s)
  have "filter (\<lambda>c. \<not> isWhiteSpace c) (dropWhile isWhiteSpace s) = filter (\<lambda>c. \<not> isWhiteSpace c) s"
    by (induction s) auto
  with 2 show ?case by (auto simp: isWhiteSpace_SP)
qed

lemma isWhiteSpace_CR_LF: "isWhiteSpace CR" "isWhiteSpace LF"
  by (simp_all add: isWhiteSpace_def CR_def LF_def)

lemma orEmpty_id: "orEmpty s = s"
  by (simp add: orEmpty_def js_def)

lemma join_Cons_nonempty: "x \<noteq> [] \<Longrightarrow> join (x # xs) sep \<noteq> []"
  by (cases xs) simp_all

lemma detailText_empty_iff: "detailText d = [] \<longleftrightarrow> d = []"
proof (cases d)
  case Nil
  then show ?thesis by (simp add: detailText_def orEmpty_id)
next
  case (Cons p ps)
  obtain name texts where p: "p = (name, texts)" by (cases p)
  have "js '': '' \<noteq> []" by (simp add: js_def)
  then have "name @ js '': '' @ join (map (\<lambda>t. collapseWhitespace (removeNewLines t)) texts)
                                   (js '' | '') \<noteq> []"
    by simp
  then show ?thesis
    using Cons p by (simp add: detailText_def orEmpty_id join_Cons_nonempty)
qed

text \<open>
  An entry of the detail captures without any capture still gives its name, so the
  \<open>detail\<close> string is empty only for detail captures without entries.
\<close>

lemma detailText_entry_without_capture: "detailText [(name, [])] = name @ js '': ''"
  by (simp add: detailText_def orEmpty_id)


subsection \<open>Facts about the scan\<close>

lemma catcherLoop_concat:
  "catcherLoop e cs file fileText acc = acc @ concat (map (\<lambda>c. catchMatches e c file fileText) cs)"
  by (induction cs arbitrary: acc) simp_all

lemma fileLoop_append:
  "fileLoop e cs (xs @ ys) acc =
     (case fileLoop e cs xs acc of Inl err \<Rightarrow> Inl err | Inr acc' \<Rightarrow> fileLoop e cs ys acc')"
  by (induction xs arbitrary: acc) (simp_all split: sum.splits)

lemma fileLoop_cong_catchMatches:
  "(\<And>c f t. \<not> skipped t \<Longrightarrow> cm c f t = catchMatches e c f t) \<Longrightarrow>
   fileLoop (e\<lparr>catchMatches := cm\<rparr>) cs files acc = fileLoop e cs files acc"
proof (induction files arbitrary: acc)
  case Nil
  then show ?case by simp
next
  case (Cons f files)
  have loop: "\<And>t acc'. \<not> skipped t \<Longrightarrow>
      catcherLoop (e\<lparr>catchMatches := cm\<rparr>) cs f t acc' = catcherLoop e cs f t acc'"
    using Cons.prems by (simp add: catcherLoop_concat)
  show ?case
    using Cons.IH [OF Cons.prems] loop by (simp split: sum.splits)
qed

lemma fileLoop_scan:
  "map (readFile e) files = map Inr texts \<Longrightarrow>
   fileLoop e cs files acc =
     Inr (acc @ concat (map (\<lambda>(file, text).
                           if skipped text then []
                           else concat (map (\<lambda>c. catchMatches e c file text) cs))
                        (zip files texts)))"
proof (induction files arbitrary: texts acc)
  case Nil
  then show ?case by simp
next
  case (Cons f files)
  then obtain t ts where texts: "texts = t # ts" by (cases texts) auto
  with Cons.prems have rd0: "readFile e f = Inr t"
    and rest: "map (readFile e) files = map Inr ts" by simp_all
  show ?case
    using Cons.IH [OF rest] rd0 texts by (simp add: catcherLoop_concat)
qed

lemma fileLoop_first_unreadable:
  "map (readFile e) before = map Inr texts \<Longrightarrow> readFile e file = Inl err \<Longrightarrow>
   fileLoop e cs (before @ file # after) acc = Inl err"
  by (simp add: fileLoop_append fileLoop_scan)

lemma fileLoop_no_match:
  "\<forall>f \<in> set files. (case readFile e f of
                        Inl err \<Rightarrow> False
                      | Inr t \<Rightarrow> skipped t \<or> (\<forall>c \<in> set cs. catchMatches e c f t = [])) \<Longrightarrow>
   fileLoop e cs files acc = Inr acc"
proof (induction files arbitrary: acc)
  case Nil
  then show ?case by simp
next
  case (Cons f files)
  then obtain t where t: "readFile e f = Inr t"
    and no: "skipped t \<or> (\<forall>c \<in> set cs. catchMatches e c f t = [])"
    by (cases "readFile e f") auto
  have "\<not> skipped t \<Longrightarrow> catcherLoop e cs f t acc = acc"
    using no by (simp add: catcherLoop_concat)
  with Cons t show ?case by simp
qed

lemma fileLoop_glob:
  "fileLoop (e\<lparr>glob := g\<rparr>) cs files acc = fileLoop e cs files acc"
  by (induction files arbitrary: acc) (simp_all add: catcherLoop_concat split: sum.splits)

subsection \<open>Facts about the store\<close>

lemma deleteDetail_other:
  "a \<notin> set refs \<Longrightarrow> deleteDetail h refs ! a = h ! a"
  by (induction refs arbitrary: h) auto

lemma deleteDetail_hit:
  "a \<in> set refs \<Longrightarrow> a < length h \<Longrightarrow> deleteDetail h refs ! a = (h ! a)\<lparr>detail := None\<rparr>"
proof (induction refs arbitrary: h)
  case Nil
  then show ?case by simp
next
  case (Cons r refs)
  show ?case
  proof (cases "a \<in> set refs")
    case True
    have "a < length (h[r := (h ! r)\<lparr>detail := None\<rparr>])" using Cons.prems by simp
    from Cons.IH [OF True this] show ?thesis
      by (cases "a = r") (use Cons.prems in auto)
  next
    case False
    with Cons.prems have "a = r" by simp
    with False Cons.prems show ?thesis by (simp add: deleteDetail_other)
  qed
qed

lemma displayTable_keeps:
  assumes "a < length h"
  shows "fst (displayTable h refs) ! a = h ! a"
proof -
  have "a \<notin> set [length h ..< length h + length refs]" using assms by simp
  then show ?thesis
    using assms by (simp add: displayTable_def jsonCopy_def Let_def deleteDetail_other nth_append)
qed

lemma displayTable_shows:
  assumes "\<forall>a \<in> set refs. a < length h"
  shows "snd (displayTable h refs) = ConsoleTable (map (\<lambda>a. (h ! a)\<lparr>detail := None\<rparr>) refs)"
proof -
  let ?h1 = "h @ map (\<lambda>a. h ! a) refs"
  let ?light = "[length h ..< length h + length refs]"
  have "map (\<lambda>a. deleteDetail ?h1 ?light ! a) ?light = map (\<lambda>a. (h ! a)\<lparr>detail := None\<rparr>) refs"
  proof (rule nth_equalityI)
    show "length (map (\<lambda>a. deleteDetail ?h1 ?light ! a) ?light)
          = length (map (\<lambda>a. (h ! a)\<lparr>detail := None\<rparr>) refs)" by simp
  next
    fix i assume "i < length (map (\<lambda>a. deleteDetail ?h1 ?light ! a) ?light)"
    then have i: "i < length refs" by simp
    then have "length h + i \<in> set ?light" "length h + i < length ?h1" by simp_all
    then have "deleteDetail ?h1 ?light ! (length h + i) = (?h1 ! (length h + i))\<lparr>detail := None\<rparr>"
      by (rule deleteDetail_hit)
    with i show "map (\<lambda>a. deleteDetail ?h1 ?light ! a) ?light ! i
                 = map (\<lambda>a. (h ! a)\<lparr>detail := None\<rparr>) refs ! i"
      by (simp add: nth_append)
  qed
  then show ?thesis by (simp add: displayTable_def jsonCopy_def Let_def)
qed

lemma displayTable_exported:
  "map (\<lambda>a. fst (displayTable h [0 ..< length h]) ! a) [0 ..< length h] = h"
  by (rule nth_equalityI) (simp_all add: displayTable_keeps)

lemma report_unfold:
  "report e ms =
     ([ConsoleTable (map (\<lambda>r. r\<lparr>detail := None\<rparr>) (resultSorted (map formatResult ms))),
       GenerateReports (resultSorted (map formatResult ms)) columns],
      case generateReports e (resultSorted (map formatResult ms)) columns of
        Inl err \<Rightarrow> Inl err
      | Inr files \<Rightarrow> Inr \<lparr>outputString = js ''Processed callIns and callOuts audit'',
                          result = resultSorted (map formatResult ms),
                          reportFiles = files\<rparr>)"
proof -
  let ?h = "resultSorted (map formatResult ms)"
  have shown: "snd (displayTable ?h [0 ..< length ?h])
               = ConsoleTable (map (\<lambda>r. r\<lparr>detail := None\<rparr>) ?h)"
  proof -
    have "map (\<lambda>a. (?h ! a)\<lparr>detail := None\<rparr>) [0 ..< length ?h] = map (\<lambda>r. r\<lparr>detail := None\<rparr>) ?h"
      by (rule nth_equalityI) simp_all
    then show ?thesis by (simp add: displayTable_shows)
  qed
  show ?thesis
    by (simp add: report_def Let_def displayTable_exported shown split: sum.splits)
qed

subsection \<open>Facts about the sort\<close>

lemma set_insertBy: "set (insertBy cmp x ys) = insert x (set ys)"
  by (induction ys) auto

lemma mset_insertBy: "mset (insertBy cmp x ys) = add_mset x (mset ys)"
  by (induction ys) auto

lemma mset_arraySort: "mset (arraySort cmp xs) = mset xs"
  by (induction xs) (simp_all add: arraySort_def mset_insertBy)

lemma sorted_insertBy:
  assumes total: "\<And>a b. cmp a b \<le> 0 \<or> cmp b a \<le> 0"
      and trans: "\<And>a b c. cmp a b \<le> 0 \<Longrightarrow> cmp b c \<le> 0 \<Longrightarrow> cmp a c \<le> 0"
  shows "sorted_wrt (\<lambda>a b. cmp a b \<le> 0) ys \<Longrightarrow> sorted_wrt (\<lambda>a b. cmp a b \<le> 0) (insertBy cmp x ys)"
proof (induction ys)
  case Nil
  then show ?case by simp
next
  case (Cons y ys)
  show ?case
  proof (cases "cmp x y \<le> 0")
    case True
    with Cons.prems trans show ?thesis by auto
  next
    case False
    with total have "cmp y x \<le> 0" by blast
    with False Cons show ?thesis by (auto simp: set_insertBy)
  qed
qed

lemma sorted_arraySort:
  assumes total: "\<And>a b. cmp a b \<le> 0 \<or> cmp b a \<le> 0"
      and trans: "\<And>a b c. cmp a b \<le> 0 \<Longrightarrow> cmp b c \<le> 0 \<Longrightarrow> cmp a c \<le> 0"
  shows "sorted_wrt (\<lambda>a b. cmp a b \<le> 0) (arraySort cmp xs)"
proof (induction xs)
  case Nil
  then show ?case by (simp add: arraySort_def)
next
  case (Cons x xs)
  have "arraySort cmp (x # xs) = insertBy cmp x (arraySort cmp xs)"
    by (simp add: arraySort_def)
  with Cons sorted_insertBy [of cmp, OF total trans] show ?case by simp
qed

lemma filter_insertBy:
  assumes eq: "\<And>y. P x \<Longrightarrow> P y \<Longrightarrow> cmp x y \<le> 0"
  shows "filter P (insertBy cmp x ys) = (if P x then x # filter P ys else filter P ys)"
  using eq by (induction ys) auto

lemma stable_arraySort:
  assumes eq: "\<And>x y. P x \<Longrightarrow> P y \<Longrightarrow> cmp x y \<le> 0"
  shows "filter P (arraySort cmp xs) = filter P xs"
proof (induction xs)
  case Nil
  then show ?case by (simp add: arraySort_def)
next
  case (Cons x xs)
  have "arraySort cmp (x # xs) = insertBy cmp x (arraySort cmp xs)"
    by (simp add: arraySort_def)
  with Cons filter_insertBy [of P x cmp, OF eq] show ?case by simp
qed

lemma getProp_keys:
  "getProp ''type'' r = Str (type r)"
  "getProp ''subType'' r = Str (subType r)"
  "getProp ''fileName'' r = Str (fileName r)"
  "getProp ''matches'' r = Num (matches r)"
  by (simp_all add: getProp_def)

lemma compareBy_asc_Str:
  "compareBy asc (Str a) (Str b) = (if a = b then 0 else if a < b then - 1 else 1)"
  by (auto simp: compareBy_def)

lemma compareBy_desc_Num:
  "compareBy desc (Num a) (Num b) = (if a = b then 0 else if a < b then 1 else - 1)"
  by (auto simp: compareBy_def)

lemma compareFunc_unfold:
  "compareFunc [''type'', ''subType'', ''fileName'', ''matches''] [asc, asc, asc, desc] x y =
     (if type x \<noteq> type y then (if type x < type y then - 1 else 1)
      else if subType x \<noteq> subType y then (if subType x < subType y then - 1 else 1)
      else if fileName x \<noteq> fileName y then (if fileName x < fileName y then - 1 else 1)
      else if matches x = matches y then 0
      else if matches x < matches y then 1 else - 1)"
  by (simp add: getProp_keys compareBy_asc_Str compareBy_desc_Num Let_def)

lemma compareFunc_run:
  "compareFunc [''type'', ''subType'', ''fileName'', ''matches''] [asc, asc, asc, desc] x y \<le> 0
   \<longleftrightarrow> precedes_spec x y"
  unfolding compareFunc_unfold precedes_spec_def
  by (cases "type x = type y"; cases "subType x = subType y"; cases "fileName x = fileName y")
     (simp_all add: not_less le_less)

lemma precedes_spec_total: "precedes_spec a b \<or> precedes_spec b a"
  unfolding precedes_spec_def
  by (cases "type a = type b"; cases "subType a = subType b"; cases "fileName a = fileName b")
     (auto simp: neq_iff)

lemma precedes_spec_lex:
  "precedes_spec r s \<longleftrightarrow>
     (type r, subType r, fileName r) < (type s, subType s, fileName s)
     \<or> ((type r, subType r, fileName r) = (type s, subType s, fileName s)
        \<and> matches s \<le> matches r)"
  by (auto simp: precedes_spec_def less_prod_def less_eq_prod_def)

lemma precedes_spec_trans:
  assumes "precedes_spec a b" "precedes_spec b c"
  shows "precedes_spec a c"
proof -
  define ka where "ka = (type a, subType a, fileName a)"
  define kb where "kb = (type b, subType b, fileName b)"
  define kc where "kc = (type c, subType c, fileName c)"
  have ab: "ka < kb \<or> (ka = kb \<and> matches b \<le> matches a)"
    using assms(1) unfolding precedes_spec_lex ka_def kb_def .
  have bc: "kb < kc \<or> (kb = kc \<and> matches c \<le> matches b)"
    using assms(2) unfolding precedes_spec_lex kb_def kc_def .
  have "ka < kc \<or> (ka = kc \<and> matches c \<le> matches a)"
    using ab bc by (auto intro: less_trans le_trans)
  then show ?thesis
    unfolding precedes_spec_lex ka_def kc_def .
qed

lemma precedes_spec_keys: "sortKeys a = sortKeys b \<Longrightarrow> precedes_spec a b"
  by (simp add: precedes_spec_def sortKeys_def)


subsection \<open>Facts about the command and the example inputs\<close>

text \<open>
  An example of the order: the file name outranks the number of matches, a larger number
  of matches comes first within a file, and rows equal on all keys keep their order.
\<close>

lemma resultSorted_example:
  "resultSorted
     [exRow\<lparr>fileName := js ''B.cls'', matches := 1\<rparr>,
      exRow\<lparr>fileName := js ''A.cls'', matches := 1, detail := Some (js ''first'')\<rparr>,
      exRow\<lparr>type := js ''OUTBOUND'', subType := js ''HTTP'', fileName := js ''A.cls''\<rparr>,
      exRow\<lparr>fileName := js ''A.cls'', matches := 3\<rparr>,
      exRow\<lparr>fileName := js ''A.cls'', matches := 1, detail := Some (js ''second'')\<rparr>]
   = [exRow\<lparr>fileName := js ''A.cls'', matches := 3\<rparr>,
      exRow\<lparr>fileName := js ''A.cls'', matches := 1, detail := Some (js ''first'')\<rparr>,
      exRow\<lparr>fileName := js ''A.cls'', matches := 1, detail := Some (js ''second'')\<rparr>,
      exRow\<lparr>fileName := js ''B.cls'', matches := 1\<rparr>,
      exRow\<lparr>type := js ''OUTBOUND'', subType := js ''HTTP'', fileName := js ''A.cls''\<rparr>]"
  by (simp add: resultSorted_def sortArray_def arraySort_def compareFunc_unfold exRow_def js_def
        del: compareFunc.simps)

lemma report_glob: "report (e\<lparr>glob := g\<rparr>) ms = report e ms"
  by (simp add: report_def)

lemma run_scanned:
  "fileLoop e catchers (glob e pattern) [] = Inr ms \<Longrightarrow>
   run e = (UxLog (js ''Browsing '' @ numberToString (length (glob e pattern)) @ js '' files'')
              # fst (report e ms),
            snd (report e ms))"
  by (simp add: run_def Let_def)

lemma run_unread:
  "fileLoop e catchers (glob e pattern) [] = Inl err \<Longrightarrow>
   run e = ([UxLog (js ''Browsing '' @ numberToString (length (glob e pattern)) @ js '' files'')],
            Inl err)"
  by (simp add: run_def Let_def)

lemma set_resultSorted: "set (resultSorted rows) = set rows"
  unfolding resultSorted_def sortArray_def
  by (rule mset_eq_setD) (rule mset_arraySort)

lemma resultSorted_Nil: "resultSorted [] = []"
  by (simp add: resultSorted_def sortArray_def arraySort_def)

lemma resultSorted_single: "resultSorted [r] = [r]"
  by (simp add: resultSorted_def sortArray_def arraySort_def)

lemma exEnv_scan:
  "fileLoop (exEnv fs) catchers [js ''ns__Ping.cls'', js ''PingTest.cls'', js ''Plain.cls''] []
   = Inr [\<lparr>m_type = js ''INBOUND'', m_subType = js ''SOAP'', m_fileName = js ''ns__Ping.cls'',
           m_matches = 1, m_detail = [(js ''webServiceName'', [js ''void ping() ''])]\<rparr>]"
  by (simp add: exEnv_def exRead_def exCatch_def catchers_def skipped_def startsWith_def
        includes_str_def js_def backslash_def)

lemma exEnv_scan_one:
  "fileLoop (exEnv fs) catchers [js ''ns__Ping.cls''] []
   = Inr [\<lparr>m_type = js ''INBOUND'', m_subType = js ''SOAP'', m_fileName = js ''ns__Ping.cls'',
           m_matches = 1, m_detail = [(js ''webServiceName'', [js ''void ping() ''])]\<rparr>]"
  by (simp add: exEnv_def exRead_def exCatch_def catchers_def skipped_def startsWith_def
        includes_str_def js_def backslash_def)

lemma exRow_format:
  "formatResult \<lparr>m_type = js ''INBOUND'', m_subType = js ''SOAP'',
                 m_fileName = js ''ns__Ping.cls'', m_matches = 1,
                 m_detail = [(js ''webServiceName'', [js ''void ping() ''])]\<rparr> = exRow"
  by (simp add: formatResult_def exRow_def nameSpaceOf_def includes_str_def at0_def split.simps
        detailText_def orEmpty_def isWhiteSpace_def SP_def CR_def LF_def js_def)

lemma browsing_one:
  "js ''Browsing '' @ numberToString (length [a :: jsstring]) @ js '' files''
   = js ''Browsing 1 files''"
  by (simp add: numberToString.simps js_def)

lemma browsing_two:
  "js ''Browsing '' @ numberToString (length [a, b :: jsstring]) @ js '' files''
   = js ''Browsing 2 files''"
  by (simp add: numberToString.simps js_def)

lemma browsing_three:
  "js ''Browsing '' @ numberToString (length [a, b, c :: jsstring]) @ js '' files''
   = js ''Browsing 3 files''"
  by (simp add: numberToString.simps js_def)

lemma exEnv_glob: "glob (exEnv fs) p = fs"
  by (simp add: exEnv_def)

lemma t_skipped: "\<not> skipped (js ''webservice static a(){} webservice static b(){}'')"
  by (simp add: skipped_def startsWith_def includes_str_def js_def)

lemma t_count1: "countMatches literalEngine \<lparr>source = ''webservice static'', flags = ''gim''\<rparr>
    (js ''webservice static a(){} webservice static b(){}'') = 2"
  by (simp add: literalEngine_def split_None split_Some js_def)

lemma t_count2: "countMatches literalEngine \<lparr>source = ''@RestResource'', flags = ''gim''\<rparr>
    (js ''webservice static a(){} webservice static b(){}'') = 0"
  by (simp add: literalEngine_def split_None split_Some js_def)

lemma t_count3: "countMatches literalEngine \<lparr>source = ''new HttpRequest'', flags = ''gim''\<rparr>
    (js ''webservice static a(){} webservice static b(){}'') = 0"
  by (simp add: literalEngine_def split_None split_Some js_def)

lemma t_groups: "firstGroups literalEngine re
    (js ''webservice static a(){} webservice static b(){}'') = []"
  by (simp add: literalEngine_def split_None split_Some js_def)


subsection \<open>Claims\<close>

text \<open>
  Claim C1. With the matcher of the spec, and every file readable: the scan result is, file
  by file in the order of the enumeration and catcher by catcher in the order of the
  catcher list, what the matcher emits for the files that are not skipped. For a catcher
  and a file the matcher emits a record if and only if the primary pattern matches at
  least once in the full text, and then exactly one: its \<open>matches\<close> is the count of the
  matches of the primary pattern, and its \<open>detail\<close> has one entry per detail extractor,
  in declaration order, holding that extractor's captures, possibly none.
\<close>

theorem one_record_per_matching_pair:
  assumes cm: "catchMatches e = catchMatches_spec re"
      and rd: "map (readFile e) files = map Inr texts"
  shows "fileLoop e cs files [] =
           Inr (concat (map (\<lambda>(file, text).
                               if skipped text then []
                               else concat (map (\<lambda>c. catchMatches_spec re c file text) cs))
                            (zip files texts)))
         \<and> (catchMatches_spec re c file text \<noteq> [] \<longleftrightarrow> 0 < countMatches re (c_regex c) text)
         \<and> length (catchMatches_spec re c file text) \<le> 1
         \<and> (\<forall>r \<in> set (catchMatches_spec re c file text).
               m_fileName r = file \<and> m_type r = c_type c \<and> m_subType r = c_subType c
               \<and> m_matches r = countMatches re (c_regex c) text
               \<and> map fst (m_detail r) = map d_name (c_detail c)
               \<and> map snd (m_detail r) = map (\<lambda>d. firstGroups re (d_regex d) text) (c_detail c))"
proof (intro conjI)
  show "fileLoop e cs files [] =
           Inr (concat (map (\<lambda>(file, text).
                               if skipped text then []
                               else concat (map (\<lambda>c. catchMatches_spec re c file text) cs))
                            (zip files texts)))"
    using fileLoop_scan [OF rd, of cs "[]"] unfolding cm by simp
  show "catchMatches_spec re c file text \<noteq> [] \<longleftrightarrow> 0 < countMatches re (c_regex c) text"
    by (simp add: catchMatches_spec_def Let_def)
  show "length (catchMatches_spec re c file text) \<le> 1"
    by (simp add: catchMatches_spec_def Let_def)
  show "\<forall>r \<in> set (catchMatches_spec re c file text).
               m_fileName r = file \<and> m_type r = c_type c \<and> m_subType r = c_subType c
               \<and> m_matches r = countMatches re (c_regex c) text
               \<and> map fst (m_detail r) = map d_name (c_detail c)
               \<and> map snd (m_detail r) = map (\<lambda>d. firstGroups re (d_regex d) text) (c_detail c)"
    by (simp add: catchMatches_spec_def Let_def comp_def)
qed

theorem one_record_per_matching_pair_witness:
  "fileLoop \<lparr>glob = (\<lambda>p. []),
             readFile = (\<lambda>f. Inr (js ''webservice static a(){} webservice static b(){}'')),
             catchMatches = catchMatches_spec literalEngine,
             generateReports = exWriter\<rparr> catchers [js ''A.cls''] []
   = Inr [\<lparr>m_type = js ''INBOUND'', m_subType = js ''SOAP'', m_fileName = js ''A.cls'',
           m_matches = 2, m_detail = [(js ''webServiceName'', [])]\<rparr>]"
  using one_record_per_matching_pair
    [of "\<lparr>glob = (\<lambda>p. []),
          readFile = (\<lambda>f. Inr (js ''webservice static a(){} webservice static b(){}'')),
          catchMatches = catchMatches_spec literalEngine,
          generateReports = exWriter\<rparr>"
        literalEngine "[js ''A.cls'']"
        "[js ''webservice static a(){} webservice static b(){}'']" catchers]
  by (simp add: catchMatches_spec_def catchers_def t_skipped t_count1 t_count2 t_count3 t_groups Let_def)

text \<open>
  Claim C2. For every sequence of report rows, the sorted sequence is ordered by \<open>type\<close>
  ascending, then \<open>subType\<close> ascending, then \<open>fileName\<close> ascending, then \<open>matches\<close>
  descending; it holds the same rows; and the sort is stable: the rows that agree on all
  four keys keep the order they had before the sort.
\<close>

theorem sort_order_and_stability:
  "sorted_wrt precedes_spec (resultSorted rows)
   \<and> mset (resultSorted rows) = mset rows
   \<and> filter (\<lambda>r. sortKeys r = k) (resultSorted rows) = filter (\<lambda>r. sortKeys r = k) rows"
proof (intro conjI)
  let ?cmp = "compareFunc [''type'', ''subType'', ''fileName'', ''matches''] [asc, asc, asc, desc]"
  have le: "(\<lambda>a b. ?cmp a b \<le> 0) = precedes_spec"
    by (intro ext) (rule compareFunc_run)
  have "sorted_wrt (\<lambda>a b. ?cmp a b \<le> 0) (arraySort ?cmp rows)"
  proof (rule sorted_arraySort)
    fix a b show "?cmp a b \<le> 0 \<or> ?cmp b a \<le> 0"
      by (simp only: compareFunc_run precedes_spec_total)
  next
    fix a b c assume "?cmp a b \<le> 0" "?cmp b c \<le> 0"
    then show "?cmp a c \<le> 0"
      by (simp only: compareFunc_run) (rule precedes_spec_trans)
  qed
  then show "sorted_wrt precedes_spec (resultSorted rows)"
    by (simp only: le resultSorted_def sortArray_def)
  show "mset (resultSorted rows) = mset rows"
    by (simp add: resultSorted_def sortArray_def mset_arraySort)
  show "filter (\<lambda>r. sortKeys r = k) (resultSorted rows) = filter (\<lambda>r. sortKeys r = k) rows"
    unfolding resultSorted_def sortArray_def
  proof (rule stable_arraySort)
    fix x y assume "sortKeys x = k" "sortKeys y = k"
    then have "precedes_spec x y" by (simp add: precedes_spec_keys)
    then show "?cmp x y \<le> 0" by (simp only: compareFunc_run)
  qed
qed

text \<open>
  The claim as stated fails in its last clause: a record without any capture whose
  detail captures have an entry gives the name of the entry, a colon and a space.
\<close>

theorem detail_without_capture_counterexample:
  "concat (map snd (m_detail
      \<lparr>m_type = js ''INBOUND'', m_subType = js ''SOAP'', m_fileName = js ''A.cls'',
       m_matches = 1, m_detail = [(js ''webServiceName'', [])]\<rparr>)) = []
   \<and> detail (formatResult
      \<lparr>m_type = js ''INBOUND'', m_subType = js ''SOAP'', m_fileName = js ''A.cls'',
       m_matches = 1, m_detail = [(js ''webServiceName'', [])]\<rparr>)
     = Some (js ''webServiceName: '')
   \<and> js ''webServiceName: '' \<noteq> []"
  by (simp add: formatResult_def detailText_entry_without_capture) (simp add: js_def)

text \<open>
  Claim C3, as amended. The \<open>detail\<close> string of a row is a function of the detail
  captures of its match record alone: two records with the same captures give the same
  string, whatever their other properties. The string joins, with \<open>||\<close> between spaces, one group per name,
  which is the name, a colon, a space and the captures of that name joined with \<open>|\<close>
  between spaces; each capture is normalised before the joining: its carriage returns and
  line feeds are removed, then every run of white space becomes one space, so that the
  normalised text holds no white space but single spaces and keeps every other code
  unit in order. The string is empty exactly when the detail captures have no entry: an
  entry contributes its name, the colon and the space even when it holds no capture.
\<close>

theorem detail_pure_normalised_joined:
  "(m_detail a = m_detail b \<longrightarrow> detail (formatResult a) = detail (formatResult b))
   \<and> detail (formatResult a) =
       Some (join (map (\<lambda>(name, texts).
                          name @ js '': '' @
                          join (map (\<lambda>t. collapseWhitespace (removeNewLines t)) texts)
                               (js '' | ''))
                       (m_detail a))
                  (js '' || ''))
   \<and> removeNewLines t = filter (\<lambda>c. c \<noteq> CR \<and> c \<noteq> LF) t
   \<and> (\<forall>c \<in> set (collapseWhitespace (removeNewLines t)). isWhiteSpace c \<longrightarrow> c = SP)
   \<and> successively (\<lambda>x y. \<not> (isWhiteSpace x \<and> isWhiteSpace y))
         (collapseWhitespace (removeNewLines t))
   \<and> filter (\<lambda>c. \<not> isWhiteSpace c) (collapseWhitespace (removeNewLines t))
       = filter (\<lambda>c. \<not> isWhiteSpace c) t
   \<and> (detail (formatResult n) = Some [] \<longleftrightarrow> m_detail n = [])"
proof (intro conjI)
  show "m_detail a = m_detail b \<longrightarrow> detail (formatResult a) = detail (formatResult b)"
    by (simp add: formatResult_def)
next
  show "\<forall>c \<in> set (collapseWhitespace (removeNewLines t)). isWhiteSpace c \<longrightarrow> c = SP"
    by (auto dest: collapseWhitespace_spaces)
next
  show "detail (formatResult a) =
       Some (join (map (\<lambda>(name, texts).
                          name @ js '': '' @
                          join (map (\<lambda>t. collapseWhitespace (removeNewLines t)) texts)
                               (js '' | ''))
                       (m_detail a))
                  (js '' || ''))"
    by (simp add: formatResult_def detailText_def orEmpty_id)
next
  show "removeNewLines t = filter (\<lambda>c. c \<noteq> CR \<and> c \<noteq> LF) t"
    by (rule removeNewLines_filter)
next
  show "successively (\<lambda>x y. \<not> (isWhiteSpace x \<and> isWhiteSpace y))
         (collapseWhitespace (removeNewLines t))"
    by (rule collapseWhitespace_no_run)
next
  have "filter (\<lambda>c. \<not> isWhiteSpace c) (removeNewLines t) = filter (\<lambda>c. \<not> isWhiteSpace c) t"
    unfolding removeNewLines_filter filter_filter
    by (rule filter_cong) (auto simp: isWhiteSpace_CR_LF)
  then show "filter (\<lambda>c. \<not> isWhiteSpace c) (collapseWhitespace (removeNewLines t))
       = filter (\<lambda>c. \<not> isWhiteSpace c) t"
    by (simp add: collapseWhitespace_keeps_text)
next
  show "detail (formatResult n) = Some [] \<longleftrightarrow> m_detail n = []"
    by (simp add: formatResult_def detailText_empty_iff)
qed

theorem detail_pure_normalised_joined_witness:
  "detail (formatResult
            \<lparr>m_type = js ''OUTBOUND'', m_subType = js ''HTTP'', m_fileName = js ''A.cls'',
             m_matches = 2,
             m_detail = [(js ''endPoint'', [js ''a'' @ [CR, LF, SP, SP] @ js ''b'', js ''c'']),
                         (js ''action'', [js ''Get''])]\<rparr>)
   = detail (formatResult
            \<lparr>m_type = js ''INBOUND'', m_subType = js ''SOAP'', m_fileName = js ''ns__B.cls'',
             m_matches = 7,
             m_detail = [(js ''endPoint'', [js ''a'' @ [CR, LF, SP, SP] @ js ''b'', js ''c'']),
                         (js ''action'', [js ''Get''])]\<rparr>)
   \<and> detail (formatResult
            \<lparr>m_type = js ''OUTBOUND'', m_subType = js ''HTTP'', m_fileName = js ''A.cls'',
             m_matches = 2,
             m_detail = [(js ''endPoint'', [js ''a'' @ [CR, LF, SP, SP] @ js ''b'', js ''c'']),
                         (js ''action'', [js ''Get''])]\<rparr>)
     = Some (js ''endPoint: a b | c || action: Get'')
   \<and> collapseWhitespace (removeNewLines (js ''a'' @ [CR, LF, SP, SP] @ js ''b'')) = js ''a b''
   \<and> detail (formatResult
            \<lparr>m_type = js ''OUTBOUND'', m_subType = js ''HTTP'', m_fileName = js ''A.cls'',
             m_matches = 2, m_detail = []\<rparr>) = Some []"
  using detail_pure_normalised_joined
    [of "\<lparr>m_type = js ''OUTBOUND'', m_subType = js ''HTTP'', m_fileName = js ''A.cls'',
          m_matches = 2,
          m_detail = [(js ''endPoint'', [js ''a'' @ [CR, LF, SP, SP] @ js ''b'', js ''c'']),
                      (js ''action'', [js ''Get''])]\<rparr>"
        "\<lparr>m_type = js ''INBOUND'', m_subType = js ''SOAP'', m_fileName = js ''ns__B.cls'',
          m_matches = 7,
          m_detail = [(js ''endPoint'', [js ''a'' @ [CR, LF, SP, SP] @ js ''b'', js ''c'']),
                      (js ''action'', [js ''Get''])]\<rparr>"
        "js ''a'' @ [CR, LF, SP, SP] @ js ''b''"
        "\<lparr>m_type = js ''OUTBOUND'', m_subType = js ''HTTP'', m_fileName = js ''A.cls'',
          m_matches = 2, m_detail = []\<rparr>"]
  by (auto simp: js_def CR_def LF_def SP_def isWhiteSpace_def)

text \<open>
  Claim C4. Every report row is derived from a match record, with the record's file name
  as its \<open>fileName\<close>, and in every derived row \<open>nameSpace\<close> is the part of \<open>fileName\<close>
  strictly before the first occurrence of the separator \<open>__\<close> when \<open>fileName\<close> contains
  \<open>__\<close> (the separator occurs right behind that part and at no earlier position), and
  the literal \<open>Custom\<close> otherwise (when the separator occurs at no position); a row
  with the file name \<open>ns__MyClass.cls\<close> has the name space \<open>ns\<close> and a row with the file
  name \<open>MyClass.cls\<close> has the name space \<open>Custom\<close>.
\<close>

theorem nameSpace_before_first_separator:
  "fileName (formatResult item) = m_fileName item
   \<and> (includes_str (fileName (formatResult item)) (js ''__'') \<longrightarrow>
      (\<exists>ns. nameSpace (formatResult item) = Some ns
           \<and> ns = take (length ns) (fileName (formatResult item))
           \<and> prefix (js ''__'') (drop (length ns) (fileName (formatResult item)))
           \<and> (\<forall>i < length ns. \<not> prefix (js ''__'') (drop i (fileName (formatResult item))))))
   \<and> (\<not> includes_str (fileName (formatResult item)) (js ''__'') \<longrightarrow>
        nameSpace (formatResult item) = Some (js ''Custom'')
        \<and> (\<forall>i \<le> length (fileName (formatResult item)).
              \<not> prefix (js ''__'') (drop i (fileName (formatResult item)))))
   \<and> nameSpace (formatResult (item\<lparr>m_fileName := js ''ns__MyClass.cls''\<rparr>)) = Some (js ''ns'')
   \<and> nameSpace (formatResult (item\<lparr>m_fileName := js ''MyClass.cls''\<rparr>)) = Some (js ''Custom'')
   \<and> (\<forall>r \<in> set (resultSorted (map formatResult ms)). \<exists>i \<in> set ms. r = formatResult i)"
proof -
  define fname where "fname = m_fileName item"
  have fn: "fileName (formatResult item) = fname"
    by (simp add: formatResult_def fname_def)
  have nsp: "nameSpace (formatResult item) = nameSpaceOf fname"
    by (simp add: formatResult_def fname_def)
  have yes: "\<exists>ns. nameSpaceOf fname = Some ns
           \<and> ns = take (length ns) fname
           \<and> prefix (js ''__'') (drop (length ns) fname)
           \<and> (\<forall>i < length ns. \<not> prefix (js ''__'') (drop i fname))"
    if inc: "includes_str fname (js ''__'')"
  proof -
    from inc obtain j where j: "indexOf fname (js ''__'') = Some j"
      by (auto simp: includes_str_def)
    have ns: "nameSpaceOf fname = Some (take j fname)"
      using inc j by (simp add: nameSpaceOf_def at0_def split_nonempty_sep [OF js_underscores])
    have bound: "j \<le> length fname"
      using indexOf_Some_bound [OF j] by simp
    then have len: "length (take j fname) = j" by simp
    show ?thesis
    proof (intro exI conjI)
      show "nameSpaceOf fname = Some (take j fname)" by (rule ns)
      show "take j fname = take (length (take j fname)) fname"
        by (simp only: len)
      show "prefix (js ''__'') (drop (length (take j fname)) fname)"
        using indexOf_Some_prefix [OF j] by (simp only: len)
      show "\<forall>i < length (take j fname). \<not> prefix (js ''__'') (drop i fname)"
        using indexOf_Some_least [OF j] by (simp only: len) blast
    qed
  qed
  have no: "nameSpaceOf fname = Some (js ''Custom'')
            \<and> (\<forall>i \<le> length fname. \<not> prefix (js ''__'') (drop i fname))"
    if exc: "\<not> includes_str fname (js ''__'')"
  proof
    from exc show "nameSpaceOf fname = Some (js ''Custom'')"
      by (simp add: nameSpaceOf_def)
    from exc have "indexOf fname (js ''__'') = None" by (simp add: includes_str_def)
    then show "\<forall>i \<le> length fname. \<not> prefix (js ''__'') (drop i fname)"
      by (simp only: indexOf_None_iff)
  qed
  have ex1: "nameSpace (formatResult (item\<lparr>m_fileName := js ''ns__MyClass.cls''\<rparr>))
             = Some (js ''ns'')"
    by (simp add: formatResult_def nameSpaceOf_def includes_str_def at0_def js_def split.simps)
  have ex2: "nameSpace (formatResult (item\<lparr>m_fileName := js ''MyClass.cls''\<rparr>))
             = Some (js ''Custom'')"
    by (simp add: formatResult_def nameSpaceOf_def includes_str_def js_def)
  have rows: "\<forall>r \<in> set (resultSorted (map formatResult ms)). \<exists>i \<in> set ms. r = formatResult i"
    by (auto simp: set_resultSorted)
  show ?thesis
    unfolding fn nsp using yes no ex1 ex2 rows fname_def by blast
qed

theorem nameSpace_before_first_separator_witness:
  "includes_str
     (fileName (formatResult
        \<lparr>m_type = js ''INBOUND'', m_subType = js ''SOAP'', m_fileName = js ''pkg__Foo__Bar.cls'',
         m_matches = 1, m_detail = []\<rparr>)) (js ''__'')
   \<and> (\<exists>ns. nameSpace (formatResult
        \<lparr>m_type = js ''INBOUND'', m_subType = js ''SOAP'', m_fileName = js ''pkg__Foo__Bar.cls'',
         m_matches = 1, m_detail = []\<rparr>) = Some ns
           \<and> prefix (js ''__'') (drop (length ns) (js ''pkg__Foo__Bar.cls'')))
   \<and> \<not> includes_str
     (fileName (formatResult
        \<lparr>m_type = js ''INBOUND'', m_subType = js ''SOAP'', m_fileName = js ''Foo_Bar.cls'',
         m_matches = 1, m_detail = []\<rparr>)) (js ''__'')
   \<and> nameSpace (formatResult
        \<lparr>m_type = js ''INBOUND'', m_subType = js ''SOAP'', m_fileName = js ''Foo_Bar.cls'',
         m_matches = 1, m_detail = []\<rparr>) = Some (js ''Custom'')"
proof -
  let ?a = "\<lparr>m_type = js ''INBOUND'', m_subType = js ''SOAP'',
             m_fileName = js ''pkg__Foo__Bar.cls'', m_matches = 1, m_detail = []\<rparr>"
  let ?b = "\<lparr>m_type = js ''INBOUND'', m_subType = js ''SOAP'',
             m_fileName = js ''Foo_Bar.cls'', m_matches = 1, m_detail = []\<rparr>"
  have fa: "fileName (formatResult ?a) = js ''pkg__Foo__Bar.cls''"
    by (simp add: formatResult_def)
  have fb: "fileName (formatResult ?b) = js ''Foo_Bar.cls''"
    by (simp add: formatResult_def)
  have a: "includes_str (js ''pkg__Foo__Bar.cls'') (js ''__'')"
    by (simp add: includes_str_def js_def)
  have b: "\<not> includes_str (js ''Foo_Bar.cls'') (js ''__'')"
    by (simp add: includes_str_def js_def)
  show ?thesis
    using a b
      nameSpace_before_first_separator [of ?a]
      nameSpace_before_first_separator [of ?b]
    unfolding fa fb by blast
qed

text \<open>
  Claim C5. A file whose text starts with \<open>hidden\<close> or contains \<open>@isTest\<close> contributes
  nothing: the scan, and the outcome of the command, are what they are without that
  file in the enumeration, whatever the catchers would find in it. The test comes before
  any catcher is evaluated on the file: the scan does not depend on what \<open>catchMatches\<close>
  would return on such a text.
\<close>

theorem skipped_file_contributes_no_rows:
  assumes rd: "readFile e file = Inr fileText"
      and mark: "startsWith fileText (js ''hidden'') \<or> includes_str fileText (js ''@isTest'')"
  shows "fileLoop e cs (before @ file # after) acc = fileLoop e cs (before @ after) acc
         \<and> snd (run (e\<lparr>glob := \<lambda>p. before @ file # after\<rparr>))
             = snd (run (e\<lparr>glob := \<lambda>p. before @ after\<rparr>))
         \<and> ((\<forall>c f t. \<not> skipped t \<longrightarrow> cm c f t = catchMatches e c f t) \<longrightarrow>
              fileLoop (e\<lparr>catchMatches := cm\<rparr>) cs files acc = fileLoop e cs files acc)"
proof (intro conjI impI)
  have sk: "skipped fileText" using mark by (simp add: skipped_def)
  show loop: "\<And>cs acc. fileLoop e cs (before @ file # after) acc = fileLoop e cs (before @ after) acc"
    using rd sk by (simp add: fileLoop_append split: sum.splits)
  show "snd (run (e\<lparr>glob := \<lambda>p. before @ file # after\<rparr>))
        = snd (run (e\<lparr>glob := \<lambda>p. before @ after\<rparr>))"
    by (simp add: run_def Let_def fileLoop_glob report_glob loop split: sum.splits)
next
  assume "\<forall>c f t. \<not> skipped t \<longrightarrow> cm c f t = catchMatches e c f t"
  then show "fileLoop (e\<lparr>catchMatches := cm\<rparr>) cs files acc = fileLoop e cs files acc"
    by (intro fileLoop_cong_catchMatches) blast
qed

theorem skipped_file_contributes_no_rows_witness:
  "readFile (exEnv []) (js ''PingTest.cls'')
     = Inr (js ''@isTest class PingTest { webservice static void t() {} }'')
   \<and> includes_str (js ''@isTest class PingTest { webservice static void t() {} }'') (js ''@isTest'')
   \<and> fileLoop (exEnv []) catchers [js ''ns__Ping.cls'', js ''PingTest.cls'', js ''Plain.cls''] []
       = fileLoop (exEnv []) catchers [js ''ns__Ping.cls'', js ''Plain.cls''] []
   \<and> fileLoop (exEnv []\<lparr>catchMatches := \<lambda>c f t. if skipped t then exCatch c f t @ exCatch c f t
                                                 else exCatch c f t\<rparr>)
         catchers [js ''ns__Ping.cls'', js ''PingTest.cls'', js ''Plain.cls''] []
       = fileLoop (exEnv []) catchers [js ''ns__Ping.cls'', js ''PingTest.cls'', js ''Plain.cls''] []"
proof -
  have rd: "readFile (exEnv []) (js ''PingTest.cls'')
     = Inr (js ''@isTest class PingTest { webservice static void t() {} }'')"
    by (simp add: exEnv_def exRead_def js_def)
  have inc: "includes_str (js ''@isTest class PingTest { webservice static void t() {} }'') (js ''@isTest'')"
    by (simp add: includes_str_def js_def)
  have cm: "\<forall>c f t. \<not> skipped t \<longrightarrow>
      (if skipped t then exCatch c f t @ exCatch c f t else exCatch c f t)
      = catchMatches (exEnv []) c f t"
    by (simp add: exEnv_def)
  show ?thesis
    using rd inc cm
      skipped_file_contributes_no_rows
        [of "exEnv []" "js ''PingTest.cls''"
            "js ''@isTest class PingTest { webservice static void t() {} }''"
            catchers "[js ''ns__Ping.cls'']" "[js ''Plain.cls'']" "[]"
            "\<lambda>c f t. if skipped t then exCatch c f t @ exCatch c f t else exCatch c f t"
            "[js ''ns__Ping.cls'', js ''PingTest.cls'', js ''Plain.cls'']"]
    by simp
qed

text \<open>
  The claim as stated fails: with an unreadable first file the command ends with the
  read error, although the second file alone yields a row.
\<close>

theorem unreadable_file_counterexample:
  "run (exEnv [js ''Locked.cls'', js ''ns__Ping.cls''])
     = ([UxLog (js ''Browsing 2 files'')], Inl (IOError (js ''Locked.cls'')))
   \<and> run (exEnv [js ''ns__Ping.cls''])
     = ([UxLog (js ''Browsing 1 files''), ConsoleTable [exRow\<lparr>detail := None\<rparr>],
         GenerateReports [exRow] columns],
        Inr \<lparr>outputString = js ''Processed callIns and callOuts audit'', result = [exRow],
             reportFiles = [\<lparr>rf_type = js ''csv'', rf_file = js ''report.csv''\<rparr>]\<rparr>)"
proof
  have "fileLoop (exEnv [js ''Locked.cls'', js ''ns__Ping.cls'']) catchers
          [js ''Locked.cls'', js ''ns__Ping.cls''] [] = Inl (IOError (js ''Locked.cls''))"
    by (simp add: exEnv_def exRead_def js_def)
  then show "run (exEnv [js ''Locked.cls'', js ''ns__Ping.cls''])
     = ([UxLog (js ''Browsing 2 files'')], Inl (IOError (js ''Locked.cls'')))"
    by (simp only: run_def Let_def exEnv_glob browsing_two sum.case)
next
  have w: "generateReports (exEnv [js ''ns__Ping.cls'']) [exRow] columns
     = Inr [\<lparr>rf_type = js ''csv'', rf_file = js ''report.csv''\<rparr>]"
    by (simp add: exEnv_def exWriter_def)
  show "run (exEnv [js ''ns__Ping.cls''])
     = ([UxLog (js ''Browsing 1 files''), ConsoleTable [exRow\<lparr>detail := None\<rparr>],
         GenerateReports [exRow] columns],
        Inr \<lparr>outputString = js ''Processed callIns and callOuts audit'', result = [exRow],
             reportFiles = [\<lparr>rf_type = js ''csv'', rf_file = js ''report.csv''\<rparr>]\<rparr>)"
    by (simp only: run_def Let_def exEnv_glob exEnv_scan_one report_unfold list.map
          exRow_format resultSorted_single w browsing_one sum.case fst_conv snd_conv)
qed

text \<open>
  Claim C6, as amended. If reading a file fails, and the files before it in the
  enumeration were read, the command ends with the error of that read: it has logged the
  number of files and nothing else, no row is returned, no table is shown, no report is
  written, and the files behind the unreadable one are not processed.
\<close>

theorem unreadable_file_aborts_run:
  assumes "glob e pattern = before @ file # after"
      and "map (readFile e) before = map Inr texts"
      and "readFile e file = Inl err"
  shows "run e = ([UxLog (js ''Browsing '' @ numberToString (length (before @ file # after))
                          @ js '' files'')],
                  Inl err)"
proof -
  have "fileLoop e catchers (glob e pattern) [] = Inl err"
    using assms by (simp add: fileLoop_first_unreadable)
  from run_unread [OF this] assms(1) show ?thesis by simp
qed

theorem unreadable_file_aborts_run_witness:
  "glob (exEnv [js ''ns__Ping.cls'', js ''Locked.cls'', js ''Plain.cls'']) pattern
     = [js ''ns__Ping.cls''] @ js ''Locked.cls'' # [js ''Plain.cls'']
   \<and> readFile (exEnv [js ''ns__Ping.cls'', js ''Locked.cls'', js ''Plain.cls'']) (js ''Locked.cls'')
     = Inl (IOError (js ''Locked.cls''))
   \<and> run (exEnv [js ''ns__Ping.cls'', js ''Locked.cls'', js ''Plain.cls''])
     = ([UxLog (js ''Browsing 3 files'')], Inl (IOError (js ''Locked.cls'')))"
proof -
  let ?e = "exEnv [js ''ns__Ping.cls'', js ''Locked.cls'', js ''Plain.cls'']"
  have g: "glob ?e pattern = [js ''ns__Ping.cls''] @ js ''Locked.cls'' # [js ''Plain.cls'']"
    by (simp add: exEnv_def)
  have rd: "map (readFile ?e) [js ''ns__Ping.cls'']
            = map Inr [js ''global class Ping { webservice static void ping() {} }'']"
    by (simp add: exEnv_def exRead_def js_def)
  have bad: "readFile ?e (js ''Locked.cls'') = Inl (IOError (js ''Locked.cls''))"
    by (simp add: exEnv_def exRead_def)
  have b: "js ''Browsing '' @ numberToString (length ([js ''ns__Ping.cls''] @ js ''Locked.cls'' # [js ''Plain.cls'']))
             @ js '' files'' = js ''Browsing 3 files''"
    by (simp add: numberToString.simps js_def)
  show ?thesis
    using g bad unreadable_file_aborts_run [OF g rd bad] by (simp only: b)
qed

text \<open>
  The claim as stated fails: when the report writer fails, the command ends with the
  writer's error, after the table has been shown, and returns no payload.
\<close>

theorem failed_export_counterexample:
  "run (exEnv [js ''ns__Ping.cls'']
          \<lparr>generateReports := \<lambda>rows cols. Inl (ExportError (js ''EACCES''))\<rparr>)
     = ([UxLog (js ''Browsing 1 files''), ConsoleTable [exRow\<lparr>detail := None\<rparr>],
         GenerateReports [exRow] columns],
        Inl (ExportError (js ''EACCES'')))"
proof -
  let ?e = "exEnv [js ''ns__Ping.cls'']
              \<lparr>generateReports := \<lambda>rows cols. Inl (ExportError (js ''EACCES''))\<rparr>"
  have g: "glob ?e pattern = [js ''ns__Ping.cls'']"
    by (simp add: exEnv_def)
  have sc: "fileLoop ?e catchers [js ''ns__Ping.cls''] []
    = Inr [\<lparr>m_type = js ''INBOUND'', m_subType = js ''SOAP'', m_fileName = js ''ns__Ping.cls'',
           m_matches = 1, m_detail = [(js ''webServiceName'', [js ''void ping() ''])]\<rparr>]"
    by (simp add: exEnv_def exRead_def exCatch_def catchers_def skipped_def startsWith_def
        includes_str_def js_def backslash_def)
  have w: "generateReports ?e [exRow] columns = Inl (ExportError (js ''EACCES''))"
    by simp
  show ?thesis
    by (simp only: run_def Let_def g sc report_unfold list.map
          exRow_format resultSorted_single w browsing_one sum.case fst_conv snd_conv)
qed

text \<open>
  Claim C7, as amended. After a scan without read failure the command logs the number of
  files, shows the console table of the sorted rows without \<open>detail\<close> and calls the report
  writer with the sorted rows and the column specification. If the report writer fails,
  the command then ends with the writer's error and returns no payload; if the report
  writer returns its files, the command returns the payload with the full sorted row
  collection and these files.
\<close>

theorem failed_export_fails_run:
  assumes "fileLoop e catchers (glob e pattern) [] = Inr ms"
  shows "(generateReports e (resultSorted (map formatResult ms)) columns = Inl err \<longrightarrow>
            run e =
              ([UxLog (js ''Browsing '' @ numberToString (length (glob e pattern))
                       @ js '' files''),
                ConsoleTable (map (\<lambda>r. r\<lparr>detail := None\<rparr>)
                                  (resultSorted (map formatResult ms))),
                GenerateReports (resultSorted (map formatResult ms)) columns],
               Inl err))
         \<and> (generateReports e (resultSorted (map formatResult ms)) columns = Inr files \<longrightarrow>
            run e =
              ([UxLog (js ''Browsing '' @ numberToString (length (glob e pattern))
                       @ js '' files''),
                ConsoleTable (map (\<lambda>r. r\<lparr>detail := None\<rparr>)
                                  (resultSorted (map formatResult ms))),
                GenerateReports (resultSorted (map formatResult ms)) columns],
               Inr \<lparr>outputString = js ''Processed callIns and callOuts audit'',
                    result = resultSorted (map formatResult ms),
                    reportFiles = files\<rparr>))"
  using run_scanned [OF assms] by (simp add: report_unfold)

theorem failed_export_fails_run_witness:
  "generateReports (exEnv [js ''ns__Ping.cls'']
          \<lparr>generateReports := \<lambda>rows cols. Inl (ExportError (js ''EACCES''))\<rparr>)
      (resultSorted (map formatResult
         [\<lparr>m_type = js ''INBOUND'', m_subType = js ''SOAP'', m_fileName = js ''ns__Ping.cls'',
           m_matches = 1, m_detail = [(js ''webServiceName'', [js ''void ping() ''])]\<rparr>])) columns
     = Inl (ExportError (js ''EACCES''))
   \<and> run (exEnv [js ''ns__Ping.cls'']
          \<lparr>generateReports := \<lambda>rows cols. Inl (ExportError (js ''EACCES''))\<rparr>)
     = ([UxLog (js ''Browsing 1 files''), ConsoleTable [exRow\<lparr>detail := None\<rparr>],
         GenerateReports [exRow] columns],
        Inl (ExportError (js ''EACCES'')))
   \<and> run (exEnv [js ''ns__Ping.cls''])
     = ([UxLog (js ''Browsing 1 files''), ConsoleTable [exRow\<lparr>detail := None\<rparr>],
         GenerateReports [exRow] columns],
        Inr \<lparr>outputString = js ''Processed callIns and callOuts audit'',
             result = [exRow],
             reportFiles = [\<lparr>rf_type = js ''csv'', rf_file = js ''report.csv''\<rparr>]\<rparr>)"
proof -
  let ?ms = "[\<lparr>m_type = js ''INBOUND'', m_subType = js ''SOAP'', m_fileName = js ''ns__Ping.cls'',
           m_matches = 1, m_detail = [(js ''webServiceName'', [js ''void ping() ''])]\<rparr>]"
  let ?bad = "exEnv [js ''ns__Ping.cls'']
              \<lparr>generateReports := \<lambda>rows cols. Inl (ExportError (js ''EACCES''))\<rparr>"
  let ?ok = "exEnv [js ''ns__Ping.cls'']"
  have g_bad: "glob ?bad pattern = [js ''ns__Ping.cls'']"
    by (simp add: exEnv_def)
  have g_ok: "glob ?ok pattern = [js ''ns__Ping.cls'']"
    by (simp add: exEnv_def)
  have sc_bad: "fileLoop ?bad catchers (glob ?bad pattern) [] = Inr ?ms"
    by (simp add: exEnv_def exRead_def exCatch_def catchers_def skipped_def startsWith_def
        includes_str_def js_def backslash_def)
  have sc_ok: "fileLoop ?ok catchers (glob ?ok pattern) [] = Inr ?ms"
    by (simp only: exEnv_glob exEnv_scan_one)
  have w_bad: "generateReports ?bad (resultSorted (map formatResult ?ms)) columns
     = Inl (ExportError (js ''EACCES''))"
    by simp
  have w_ok: "generateReports ?ok (resultSorted (map formatResult ?ms)) columns
     = Inr [\<lparr>rf_type = js ''csv'', rf_file = js ''report.csv''\<rparr>]"
    by (simp add: exEnv_def exWriter_def)
  have rows: "resultSorted (map formatResult ?ms) = [exRow]"
    by (simp only: list.map exRow_format resultSorted_single)
  have len: "js ''Browsing '' @ numberToString (length [js ''ns__Ping.cls'']) @ js '' files''
             = js ''Browsing 1 files''"
    by (rule browsing_one)
  note bad = failed_export_fails_run [OF sc_bad, of "ExportError (js ''EACCES'')"]
  note ok = failed_export_fails_run
              [OF sc_ok, of _ "[\<lparr>rf_type = js ''csv'', rf_file = js ''report.csv''\<rparr>]"]
  have run_bad: "run ?bad
     = ([UxLog (js ''Browsing 1 files''), ConsoleTable [exRow\<lparr>detail := None\<rparr>],
         GenerateReports [exRow] columns],
        Inl (ExportError (js ''EACCES'')))"
    using bad w_bad unfolding rows g_bad len by simp
  have run_ok: "run ?ok
     = ([UxLog (js ''Browsing 1 files''), ConsoleTable [exRow\<lparr>detail := None\<rparr>],
         GenerateReports [exRow] columns],
        Inr \<lparr>outputString = js ''Processed callIns and callOuts audit'',
             result = [exRow],
             reportFiles = [\<lparr>rf_type = js ''csv'', rf_file = js ''report.csv''\<rparr>]\<rparr>)"
    using ok w_ok unfolding rows g_ok len by simp
  from w_bad run_bad run_ok show ?thesis by (intro conjI)
qed

text \<open>
  Claim C9. When every file of the enumeration is read and is either skipped or matched
  by no catcher, the command logs the number of files, shows a console table of zero
  rows and calls the report writer with the empty row sequence and the column
  specification; no error arises but one of the report writer, and with the files that
  the writer returns the payload holds the empty row collection and these files.
\<close>

theorem no_match_run_completes:
  assumes "\<forall>f \<in> set (glob e pattern).
             (case readFile e f of
                Inl err \<Rightarrow> False
              | Inr t \<Rightarrow> skipped t \<or> (\<forall>c \<in> set catchers. catchMatches e c f t = []))"
  shows "fst (run e) = [UxLog (js ''Browsing '' @ numberToString (length (glob e pattern))
                               @ js '' files''),
                        ConsoleTable [],
                        GenerateReports [] columns]
         \<and> snd (run e) = (case generateReports e [] columns of
                            Inl err \<Rightarrow> Inl err
                          | Inr files \<Rightarrow>
                              Inr \<lparr>outputString = js ''Processed callIns and callOuts audit'',
                                   result = [], reportFiles = files\<rparr>)
         \<and> (generateReports e [] columns = Inr files \<longrightarrow>
              snd (run e) = Inr \<lparr>outputString = js ''Processed callIns and callOuts audit'',
                                  result = [], reportFiles = files\<rparr>)"
proof -
  have "fileLoop e catchers (glob e pattern) [] = Inr []"
    using assms by (rule fileLoop_no_match)
  from run_scanned [OF this] show ?thesis
    by (simp add: report_unfold resultSorted_Nil split: sum.splits)
qed

theorem no_match_run_completes_witness:
  "run (exEnv [js ''Plain.cls'', js ''PingTest.cls''])
     = ([UxLog (js ''Browsing 2 files''), ConsoleTable [], GenerateReports [] columns],
        Inr \<lparr>outputString = js ''Processed callIns and callOuts audit'', result = [],
             reportFiles = [\<lparr>rf_type = js ''csv'', rf_file = js ''report.csv''\<rparr>]\<rparr>)"
proof -
  let ?e = "exEnv [js ''Plain.cls'', js ''PingTest.cls'']"
  have g: "glob ?e pattern = [js ''Plain.cls'', js ''PingTest.cls'']"
    by (simp add: exEnv_def)
  have plain: "readFile ?e (js ''Plain.cls'') = Inr (js ''class Plain {}'')"
    by (simp add: exEnv_def exRead_def js_def)
  have test: "readFile ?e (js ''PingTest.cls'')
      = Inr (js ''@isTest class PingTest { webservice static void t() {} }'')"
    by (simp add: exEnv_def exRead_def js_def)
  have none: "\<forall>c \<in> set catchers. catchMatches ?e c (js ''Plain.cls'') (js ''class Plain {}'') = []"
    by (simp add: exEnv_def exCatch_def catchers_def includes_str_def js_def backslash_def)
  have sk: "skipped (js ''@isTest class PingTest { webservice static void t() {} }'')"
    by (simp add: skipped_def includes_str_def js_def)
  have hyp: "\<forall>f \<in> set (glob ?e pattern).
             (case readFile ?e f of
                Inl err \<Rightarrow> False
              | Inr t \<Rightarrow> skipped t \<or> (\<forall>c \<in> set catchers. catchMatches ?e c f t = []))"
    unfolding g using plain test none sk by simp
  have w: "generateReports ?e [] columns = Inr [\<lparr>rf_type = js ''csv'', rf_file = js ''report.csv''\<rparr>]"
    by (simp add: exEnv_def exWriter_def)
  have "run ?e = (fst (run ?e), snd (run ?e))" by simp
  then show ?thesis
    using no_match_run_completes [OF hyp, of "[\<lparr>rf_type = js ''csv'', rf_file = js ''report.csv''\<rparr>]"] w
    by (simp only: g browsing_two) simp
qed

text \<open>
  Claim C10. The console table works on copies: after the table is shown, every object
  that the array of sorted rows refers to is what it was before, while the table shows
  the rows without \<open>detail\<close>. So the rows handed to the report writer and the rows of
  the returned payload are the sorted rows, each with its \<open>detail\<close>.
\<close>

theorem console_table_works_on_copies:
  "((\<forall>a \<in> set refs. a < length h) \<longrightarrow>
      (\<forall>a \<in> set refs. fst (displayTable h refs) ! a = h ! a)
      \<and> snd (displayTable h refs) = ConsoleTable (map (\<lambda>a. (h ! a)\<lparr>detail := None\<rparr>) refs))
   \<and> (fileLoop e catchers (glob e pattern) [] = Inr ms \<longrightarrow>
        fst (run e) = [UxLog (js ''Browsing '' @ numberToString (length (glob e pattern))
                              @ js '' files''),
                       ConsoleTable (map (\<lambda>r. r\<lparr>detail := None\<rparr>)
                                         (resultSorted (map formatResult ms))),
                       GenerateReports (resultSorted (map formatResult ms)) columns]
        \<and> (\<forall>r \<in> set (resultSorted (map formatResult ms)). detail r \<noteq> None)
        \<and> (generateReports e (resultSorted (map formatResult ms)) columns = Inr files \<longrightarrow>
             snd (run e) = Inr \<lparr>outputString = js ''Processed callIns and callOuts audit'',
                                 result = resultSorted (map formatResult ms),
                                 reportFiles = files\<rparr>))"
proof (intro conjI impI ballI)
  fix a assume "\<forall>a \<in> set refs. a < length h" "a \<in> set refs"
  then show "fst (displayTable h refs) ! a = h ! a"
    by (simp add: displayTable_keeps)
next
  assume "\<forall>a \<in> set refs. a < length h"
  then show "snd (displayTable h refs) = ConsoleTable (map (\<lambda>a. (h ! a)\<lparr>detail := None\<rparr>) refs)"
    by (rule displayTable_shows)
next
  assume "fileLoop e catchers (glob e pattern) [] = Inr ms"
  from run_scanned [OF this]
  show "fst (run e) = [UxLog (js ''Browsing '' @ numberToString (length (glob e pattern))
                              @ js '' files''),
                       ConsoleTable (map (\<lambda>r. r\<lparr>detail := None\<rparr>)
                                         (resultSorted (map formatResult ms))),
                       GenerateReports (resultSorted (map formatResult ms)) columns]"
    by (simp add: report_unfold)
next
  fix r assume "r \<in> set (resultSorted (map formatResult ms))"
  then show "detail r \<noteq> None"
    by (auto simp: set_resultSorted formatResult_def)
next
  assume "fileLoop e catchers (glob e pattern) [] = Inr ms"
    and "generateReports e (resultSorted (map formatResult ms)) columns = Inr files"
  with run_scanned [of e ms]
  show "snd (run e) = Inr \<lparr>outputString = js ''Processed callIns and callOuts audit'',
                                 result = resultSorted (map formatResult ms),
                                 reportFiles = files\<rparr>"
    by (simp add: report_unfold)
qed

theorem console_table_works_on_copies_witness:
  "fst (displayTable [exRow, exRow\<lparr>fileName := js ''B.cls''\<rparr>] [1, 0]) ! 0 = exRow
   \<and> fst (displayTable [exRow, exRow\<lparr>fileName := js ''B.cls''\<rparr>] [1, 0]) ! 1
       = exRow\<lparr>fileName := js ''B.cls''\<rparr>
   \<and> snd (displayTable [exRow, exRow\<lparr>fileName := js ''B.cls''\<rparr>] [1, 0])
       = ConsoleTable [exRow\<lparr>fileName := js ''B.cls'', detail := None\<rparr>, exRow\<lparr>detail := None\<rparr>]
   \<and> fst (run (exEnv [js ''ns__Ping.cls'']))
       = [UxLog (js ''Browsing 1 files''), ConsoleTable [exRow\<lparr>detail := None\<rparr>],
          GenerateReports [exRow] columns]
   \<and> snd (run (exEnv [js ''ns__Ping.cls'']))
       = Inr \<lparr>outputString = js ''Processed callIns and callOuts audit'', result = [exRow],
              reportFiles = [\<lparr>rf_type = js ''csv'', rf_file = js ''report.csv''\<rparr>]\<rparr>"
proof -
  let ?ms = "[\<lparr>m_type = js ''INBOUND'', m_subType = js ''SOAP'', m_fileName = js ''ns__Ping.cls'',
           m_matches = 1, m_detail = [(js ''webServiceName'', [js ''void ping() ''])]\<rparr>]"
  let ?ok = "exEnv [js ''ns__Ping.cls'']"
  have valid: "\<forall>a \<in> set [1, 0 :: nat]. a < length [exRow, exRow\<lparr>fileName := js ''B.cls''\<rparr>]"
    by simp
  have sc: "fileLoop ?ok catchers (glob ?ok pattern) [] = Inr ?ms"
    by (simp only: exEnv_glob exEnv_scan_one)
  have w: "generateReports ?ok (resultSorted (map formatResult ?ms)) columns
     = Inr [\<lparr>rf_type = js ''csv'', rf_file = js ''report.csv''\<rparr>]"
    by (simp add: exEnv_def exWriter_def)
  have rows: "resultSorted (map formatResult ?ms) = [exRow]"
    by (simp only: list.map exRow_format resultSorted_single)
  have b: "js ''Browsing '' @ numberToString (length (glob ?ok pattern)) @ js '' files''
           = js ''Browsing 1 files''"
    by (simp only: exEnv_glob browsing_one)
  show ?thesis
    using valid sc w
      console_table_works_on_copies
        [of "[1, 0]" "[exRow, exRow\<lparr>fileName := js ''B.cls''\<rparr>]" ?ok ?ms
            "[\<lparr>rf_type = js ''csv'', rf_file = js ''report.csv''\<rparr>]"]
    by (simp only: rows b) simp
qed

end
